theory Spec2Isabelle
  imports Main "HOL-Library.Word"
begin

section \<open>Values of the program\<close>

text \<open>
  A live connection object of the ldap library is identified by a number. A value of the
  interface type \<open>ldap.Client\<close> is either \<open>nil\<close> (\<open>None\<close>) or such a connection.
\<close>

type_synonym conn = nat

type_synonym client = "conn option"

text \<open>
  The error values the pool hands out: the package's \<open>ErrClosed\<close>, an error made by
  \<open>errors.New\<close> with its text, and an error that came out of the factory (with the text
  its \<open>Error()\<close> method gives).
\<close>

datatype error = ErrClosed | ErrorsNew string | FactoryError string

text \<open>
  How a call ends: it returns a value, it panics (a nil dereference, a call of a nil
  function, a send on a closed channel), or it is suspended on a channel operation that
  no step of its own can complete.
\<close>

datatype 'a outcome = Returns 'a | Panics | Blocks

datatype PoolType = SharedPool | BindPool

text \<open>
  \<open>PoolFactory\<close>: the injected function. The parent client is fixed for a pool, so the model
  gives the factory the pool type and the number of calls made before this one; the result is
  the pair \<open>(ldap.Client, error)\<close> of the source: \<open>Inl msg\<close> is a non-nil error with text
  \<open>msg\<close>, \<open>Inr x\<close> is the client \<open>x\<close> with a nil error (\<open>x\<close> itself may be nil).
\<close>

type_synonym PoolFactory = "PoolType \<Rightarrow> nat \<Rightarrow> string + client"

subsection \<open>Buffered channels\<close>

record chan =
  buf :: "client list"
  cap :: nat
  chan_closed :: bool

definition make_chan :: "nat \<Rightarrow> chan" where
  "make_chan n = \<lparr>buf = [], cap = n, chan_closed = False\<rparr>"

datatype recv = Received client chan | RecvWaits

text \<open>\<open>v := <-ch\<close>: the oldest buffered value; on a closed and empty channel the zero value
  \<open>nil\<close>; on an open and empty channel the receiver waits.\<close>

definition chan_recv :: "chan \<Rightarrow> recv" where
  "chan_recv ch =
     (case buf ch of
        x # xs \<Rightarrow> Received x (ch\<lparr>buf := xs\<rparr>)
      | [] \<Rightarrow> if chan_closed ch then Received None ch else RecvWaits)"

datatype send = Sent chan | SendWaits | SendOnClosed

text \<open>\<open>ch <- v\<close>: a send on a closed channel panics; a send on a full channel waits (in a
  \<open>select\<close> with a \<open>default\<close> case the default case runs instead).\<close>

definition chan_send :: "chan \<Rightarrow> client \<Rightarrow> send" where
  "chan_send ch v =
     (if chan_closed ch then SendOnClosed
      else if length (buf ch) < cap ch then Sent (ch\<lparr>buf := buf ch @ [v]\<rparr>)
      else SendWaits)"

subsection \<open>The handle and the pool\<close>

record PoolConn =
  Conn :: client
  unusable :: bool
  closeAt :: "8 word list"

text \<open>
  The state a pool's methods work on: the fields of \<open>channelPool\<close> and, below them, the
  part of the environment they touch. The field \<open>conns\<close> of the source is a reference to
  the channel made at construction or \<open>nil\<close>: \<open>conns_set\<close> says that it is not \<open>nil\<close>, and
  \<open>store\<close> is the channel object itself, which goes on existing (for a caller that loaded
  the reference earlier) after \<open>Close\<close> has set the field to \<open>nil\<close>. The mutex is held
  only over steps that never wait, so it is free between any two calls and is not modelled.
  \<open>calls\<close> counts the factory's invocations, \<open>disposed\<close> lists the connections whose
  \<open>Close()\<close> was called, \<open>alive\<close> says whether the probe search of a connection succeeds,
  \<open>logs\<close> are the messages given to the logger. The parent client is taken to be
  non-nil, as \<open>InitClientPool\<close> passes it, so that \<open>GetLogger\<close> always gives a logger.
\<close>

record world =
  conns_set :: bool
  store :: chan
  aliveChecks :: bool
  factory :: "PoolFactory option"
  pool_closeAt :: "8 word list"
  poolType :: PoolType
  initialConnections :: int
  maxConnections :: int
  refreshInterval :: nat
  calls :: nat
  disposed :: "conn list"
  alive :: "conn \<Rightarrow> bool"
  logs :: "string list"

record env =
  e_calls :: nat
  e_disposed :: "conn list"
  e_alive :: "conn \<Rightarrow> bool"
  e_logs :: "string list"

definition env_of :: "world \<Rightarrow> env" where
  "env_of w = \<lparr>e_calls = calls w, e_disposed = disposed w, e_alive = alive w, e_logs = logs w\<rparr>"

definition logf :: "string \<Rightarrow> world \<Rightarrow> world" where
  "logf msg w = w\<lparr>logs := logs w @ [msg]\<rparr>"

text \<open>\<open>conn.Close()\<close> on an interface value: a nil dereference when it is \<open>nil\<close>.\<close>

definition client_Close :: "client \<Rightarrow> world \<Rightarrow> world \<times> unit outcome" where
  "client_Close x w =
     (case x of
        None \<Rightarrow> (w, Panics)
      | Some c \<Rightarrow> (w\<lparr>disposed := disposed w @ [c]\<rparr>, Returns ()))"

definition AliveChecks :: "bool \<Rightarrow> world \<Rightarrow> world" where
  "AliveChecks on w = w\<lparr>aliveChecks := on\<rparr>"

definition wrapConn :: "client \<Rightarrow> 8 word list \<Rightarrow> PoolConn" where
  "wrapConn x ca = \<lparr>Conn = x, unusable = False, closeAt = ca\<rparr>"

definition isAlive :: "world \<Rightarrow> conn \<Rightarrow> bool" where
  "isAlive w c = alive w c"

text \<open>\<open>len(c.getConns())\<close>: the length of a nil channel is 0.\<close>

definition Len :: "world \<Rightarrow> int" where
  "Len w = (if conns_set w then int (length (buf (store w))) else 0)"

text \<open>A call through a function value: calling a nil function panics.\<close>

definition call_fn :: "PoolFactory option \<Rightarrow> world \<Rightarrow> world \<times> (string + client) outcome" where
  "call_fn fn w =
     (case fn of
        None \<Rightarrow> (w, Panics)
      | Some f \<Rightarrow> (w\<lparr>calls := calls w + 1\<rparr>, Returns (f (poolType w) (calls w))))"

definition call_factory :: "world \<Rightarrow> world \<times> (string + client) outcome" where
  "call_factory w = call_fn (factory w) w"

definition NewConn :: "world \<Rightarrow> world \<times> (error + PoolConn) outcome" where
  "NewConn w =
     (case call_factory w of
        (w1, Returns (Inl msg)) \<Rightarrow>
          (logf (''failed to create NewConn for pooldap.channelPool '' @ msg) w1,
           Returns (Inl (FactoryError msg)))
      | (w1, Returns (Inr x)) \<Rightarrow> (w1, Returns (Inr (wrapConn x (pool_closeAt w1))))
      | (w1, Panics) \<Rightarrow> (w1, Panics)
      | (w1, Blocks) \<Rightarrow> (w1, Blocks))"

subsection \<open>Release into the pool\<close>

text \<open>
  \<open>put\<close>, the part under the mutex: on a closed pool the connection is closed; otherwise
  the \<open>select\<close> sends it into the channel when that does not wait and closes it in the
  \<open>default\<close> case.
\<close>

definition put_locked :: "world \<Rightarrow> client \<Rightarrow> world \<times> unit outcome" where
  "put_locked w x =
     (if \<not> conns_set w then client_Close x w
      else (case chan_send (store w) x of
              Sent ch \<Rightarrow> (w\<lparr>store := ch\<rparr>, Returns ())
            | SendWaits \<Rightarrow> client_Close x w
            | SendOnClosed \<Rightarrow> (w, Panics)))"

definition put :: "world \<Rightarrow> client \<Rightarrow> world \<times> unit outcome" where
  "put w x =
     (case x of
        Some c \<Rightarrow> put_locked w x
      | None \<Rightarrow>
          (case NewConn (logf ''ldap connection is nil. recreating'' w) of
             (w1, Returns (Inl e)) \<Rightarrow> (w1, Returns ())
           | (w1, Returns (Inr pConn)) \<Rightarrow> put_locked w1 (Conn pConn)
           | (w1, Panics) \<Rightarrow> (w1, Panics)
           | (w1, Blocks) \<Rightarrow> (w1, Blocks)))"

subsection \<open>Closing the pool\<close>

text \<open>\<open>for conn := range conns { conn.Close() }\<close> over the closed channel, whose buffer is
  the list: each round takes the oldest value out and closes it.\<close>

fun drain :: "client list \<Rightarrow> world \<Rightarrow> world \<times> unit outcome" where
  "drain [] w = (w, Returns ())"
| "drain (x # xs) w =
     (case client_Close x (w\<lparr>store := (store w)\<lparr>buf := xs\<rparr>\<rparr>) of
        (w1, Returns u) \<Rightarrow> drain xs w1
      | (w1, Panics) \<Rightarrow> (w1, Panics)
      | (w1, Blocks) \<Rightarrow> (w1, Blocks))"

text \<open>\<open>Close\<close> of the pool. \<open>close(conns)\<close> panics on a channel that is closed
  already.\<close>

definition Close :: "world \<Rightarrow> world \<times> unit outcome" where
  "Close w =
     (let had = conns_set w;
          w1 = w\<lparr>conns_set := False, factory := None\<rparr>
      in if \<not> had then (w1, Returns ())
         else if chan_closed (store w1) then (w1, Panics)
         else drain (buf (store w1)) (w1\<lparr>store := (store w1)\<lparr>chan_closed := True\<rparr>\<rparr>))"

subsection \<open>Checkout\<close>

text \<open>
  \<open>Get\<close> first loads the field \<open>conns\<close> (\<open>getConns\<close>) and answers \<open>ErrClosed\<close> when it is
  \<open>nil\<close>; \<open>Get_select\<close> is the rest, the \<open>select\<close> whose only case receives from the
  channel that was loaded.
\<close>

definition Get_select :: "world \<Rightarrow> world \<times> (error + PoolConn) outcome" where
  "Get_select w =
     (case chan_recv (store w) of
        RecvWaits \<Rightarrow> (w, Blocks)
      | Received x ch \<Rightarrow>
          (let w1 = w\<lparr>store := ch\<rparr> in
           case x of
             None \<Rightarrow> (w1, Returns (Inl ErrClosed))
           | Some c \<Rightarrow>
               if \<not> aliveChecks w1 \<or> isAlive w1 c
               then (w1, Returns (Inr (wrapConn x (pool_closeAt w1))))
               else (case client_Close x (logf (''connection dead'' @ [CHR 0x0A]) w1) of
                       (w2, Returns u) \<Rightarrow> NewConn w2
                     | (w2, Panics) \<Rightarrow> (w2, Panics)
                     | (w2, Blocks) \<Rightarrow> (w2, Blocks))))"

definition Get :: "world \<Rightarrow> world \<times> (error + PoolConn) outcome" where
  "Get w = (if \<not> conns_set w then (w, Returns (Inl ErrClosed)) else Get_select w)"

subsection \<open>The handle's methods\<close>

text \<open>The receiver is a pointer: \<open>None\<close> is the nil pointer, whose fields cannot be read
  or written. The pool a handle refers to is the pool of the state.\<close>

definition MarkUnusable :: "PoolConn option \<Rightarrow> PoolConn outcome" where
  "MarkUnusable p =
     (case p of None \<Rightarrow> Panics | Some h \<Rightarrow> Returns (h\<lparr>unusable := True\<rparr>))"

text \<open>The branch of \<open>Close\<close> under \<open>if p.unusable\<close>. When \<open>NewConn\<close> fails its first
  result is the nil pointer, and reading \<open>conn.Conn\<close> panics.\<close>

definition Close_unusable :: "PoolConn \<Rightarrow> world \<Rightarrow> world \<times> unit outcome" where
  "Close_unusable h w =
     (let w1 = logf ''Closing unusable connection'' w;
          w2 = (case Conn h of None \<Rightarrow> w1 | Some c \<Rightarrow> fst (client_Close (Some c) w1))
      in case NewConn w2 of
           (w3, Returns (Inr conn)) \<Rightarrow> put w3 (Conn conn)
         | (w3, Returns (Inl e)) \<Rightarrow> (w3, Panics)
         | (w3, Panics) \<Rightarrow> (w3, Panics)
         | (w3, Blocks) \<Rightarrow> (w3, Blocks))"

definition PoolConn_Close :: "PoolConn option \<Rightarrow> world \<Rightarrow> world \<times> unit outcome" where
  "PoolConn_Close p w =
     (case p of
        None \<Rightarrow> (w, Panics)
      | Some h \<Rightarrow> if unusable h then Close_unusable h w else put w (Conn h))"

text \<open>\<open>%d\<close> of a \<open>uint8\<close>.\<close>

definition digit :: "nat \<Rightarrow> char" where
  "digit k = char_of (48 + k)"

definition show_uint8 :: "8 word \<Rightarrow> string" where
  "show_uint8 code =
     (let n = unat code in
      if n < 10 then [digit n]
      else if n < 100 then [digit (n div 10), digit (n mod 10)]
      else [digit (n div 100), digit (n div 10 mod 10), digit (n mod 10)])"

text \<open>
  \<open>AutoClose\<close>: \<open>ldap.IsErrorWithCode\<close> belongs to the ldap library and is a parameter
  \<open>is_code\<close> here, over any type of error signals. The loop over \<open>p.closeAt\<close> stops at the
  first code that matches.
\<close>

fun AutoClose_loop ::
  "('e \<Rightarrow> 8 word \<Rightarrow> bool) \<Rightarrow> 'e \<Rightarrow> 8 word list \<Rightarrow> PoolConn \<Rightarrow> world \<Rightarrow> PoolConn \<times> world" where
  "AutoClose_loop is_code err [] h w = (h, w)"
| "AutoClose_loop is_code err (code # codes) h w =
     (if is_code err code
      then (h\<lparr>unusable := True\<rparr>,
            logf (''Marking LDAP Connection as Unusable due to code '' @ show_uint8 code) w)
      else AutoClose_loop is_code err codes h w)"

definition AutoClose_body ::
  "('e \<Rightarrow> 8 word \<Rightarrow> bool) \<Rightarrow> PoolConn option \<Rightarrow> 'e \<Rightarrow> world \<Rightarrow> world \<times> PoolConn option outcome" where
  "AutoClose_body is_code p err w =
     (case p of
        None \<Rightarrow> (w, Panics)
      | Some h \<Rightarrow>
          (case AutoClose_loop is_code err (closeAt h) h w of
             (h1, w1) \<Rightarrow> (w1, Returns (Some h1))))"

text \<open>The deferred function recovers a panic of the body: the call then returns.\<close>

definition AutoClose ::
  "('e \<Rightarrow> 8 word \<Rightarrow> bool) \<Rightarrow> PoolConn option \<Rightarrow> 'e \<Rightarrow> world \<Rightarrow> world \<times> PoolConn option outcome" where
  "AutoClose is_code p err w =
     (case AutoClose_body is_code p err w of
        (w1, Panics) \<Rightarrow>
          (logf (''rescued panic in (p *PoolConn) AutoClose runtime error: '' @
                 ''invalid memory address or nil pointer dereference'') w1,
           Returns p)
      | (w1, r) \<Rightarrow> (w1, r))"

subsection \<open>Construction\<close>

datatype new_result = Pool world | Fail error env

text \<open>The loop \<open>for i := 0; i < initialCap; i++\<close> of \<open>NewChannelPool\<close>, with the number of
  rounds still to run.\<close>

fun fill :: "PoolFactory option \<Rightarrow> nat \<Rightarrow> world \<Rightarrow> new_result outcome" where
  "fill fn 0 c = Returns (Pool c)"
| "fill fn (Suc k) c =
     (case call_fn fn c of
        (c1, Returns (Inl msg)) \<Rightarrow>
          (case Close c1 of
             (c2, Returns u) \<Rightarrow>
               Returns (Fail (ErrorsNew (''factory is not able to fill the pool: '' @ msg))
                             (env_of c2))
           | (c2, Panics) \<Rightarrow> Panics
           | (c2, Blocks) \<Rightarrow> Blocks)
      | (c1, Returns (Inr x)) \<Rightarrow>
          (case chan_send (store c1) x of
             Sent ch \<Rightarrow> fill fn k (c1\<lparr>store := ch\<rparr>)
           | SendWaits \<Rightarrow> Blocks
           | SendOnClosed \<Rightarrow> Panics)
      | (c1, Panics) \<Rightarrow> Panics
      | (c1, Blocks) \<Rightarrow> Blocks)"

definition NewChannelPool ::
  "int \<Rightarrow> int \<Rightarrow> PoolType \<Rightarrow> PoolFactory option \<Rightarrow> 8 word list \<Rightarrow> nat \<Rightarrow> env
     \<Rightarrow> new_result outcome" where
  "NewChannelPool initialCap maxCap pt fn ca ri e =
     (if initialCap < 0 \<or> maxCap \<le> 0 \<or> initialCap > maxCap
      then Returns (Fail (ErrorsNew ''invalid capacity settings'') e)
      else fill fn (nat initialCap)
             \<lparr>conns_set = True, store = make_chan (nat maxCap), aliveChecks = False,
              factory = fn, pool_closeAt = ca, poolType = pt,
              initialConnections = initialCap, maxConnections = maxCap,
              refreshInterval = ri,
              calls = e_calls e, disposed = e_disposed e, alive = e_alive e,
              logs = e_logs e\<rparr>)"

subsection \<open>The refill loop\<close>

text \<open>
  The inner loop \<open>for i := c.Len(); i < c.initialConnections; i++\<close> with the number of
  rounds still to run. When \<open>NewConn\<close> fails its first result is the nil pointer, on which
  the error branch calls \<open>MarkUnusable\<close>.
\<close>

fun refill_rounds :: "nat \<Rightarrow> world \<Rightarrow> world \<times> unit outcome" where
  "refill_rounds 0 w = (w, Returns ())"
| "refill_rounds (Suc k) w =
     (case NewConn w of
        (w1, Returns (Inl e)) \<Rightarrow>
          (case MarkUnusable None of
             Returns h \<Rightarrow>
               (case PoolConn_Close (Some h) w1 of
                  (w2, Returns u) \<Rightarrow>
                    refill_rounds k (logf ''could not refresh connection'' w2)
                | (w2, Panics) \<Rightarrow> (w2, Panics)
                | (w2, Blocks) \<Rightarrow> (w2, Blocks))
           | Panics \<Rightarrow> (w1, Panics)
           | Blocks \<Rightarrow> (w1, Blocks))
      | (w1, Returns (Inr conn)) \<Rightarrow>
          (case put w1 (Conn conn) of
             (w2, Returns u) \<Rightarrow> refill_rounds k w2
           | (w2, Panics) \<Rightarrow> (w2, Panics)
           | (w2, Blocks) \<Rightarrow> (w2, Blocks))
      | (w1, Panics) \<Rightarrow> (w1, Panics)
      | (w1, Blocks) \<Rightarrow> (w1, Blocks))"

text \<open>One round of the outer loop, after the sleep.\<close>

definition RefillTick :: "world \<Rightarrow> world \<times> unit outcome" where
  "RefillTick w =
     (let w1 = logf ''refreshing LDAP connections'' w
      in refill_rounds (nat (initialConnections w1 - Len w1)) w1)"

text \<open>\<open>RefillPool\<close> never returns; \<open>RefillPool n\<close> runs its first \<open>n\<close> ticks and stops
  earlier only when a tick does not return.\<close>

fun RefillPool :: "nat \<Rightarrow> world \<Rightarrow> world \<times> unit outcome" where
  "RefillPool 0 w = (w, Returns ())"
| "RefillPool (Suc n) w =
     (case RefillTick w of
        (w1, Returns u) \<Rightarrow> RefillPool n w1
      | (w1, Panics) \<Rightarrow> (w1, Panics)
      | (w1, Blocks) \<Rightarrow> (w1, Blocks))"

subsection \<open>Sequences of calls on one handle\<close>

text \<open>
  The methods of \<open>PoolConn\<close>, without their arguments (only the error given to
  \<open>AutoClose\<close> matters here). All but \<open>Close\<close>, \<open>MarkUnusable\<close>, \<open>AutoClose\<close> and
  \<open>GetLogger\<close> pass the call on to \<open>p.Conn\<close> and touch no field of the handle.
\<close>

datatype 'e handle_op =
    OpStart | OpClose | OpSimpleBind | OpBind | OpMarkUnusable | OpAutoClose 'e
  | OpSetTimeout | OpAdd | OpDel | OpModify | OpCompare | OpPasswordModify
  | OpSearch | OpSearchWithPaging | OpGetLogger

text \<open>\<open>p.Conn.M(...)\<close>: a nil dereference when the wrapped client is \<open>nil\<close>; what the
  connection itself does is outside the pool.\<close>

definition delegate :: "PoolConn \<Rightarrow> world \<Rightarrow> (PoolConn \<times> world) \<times> unit outcome" where
  "delegate h w = (case Conn h of None \<Rightarrow> ((h, w), Panics) | Some c \<Rightarrow> ((h, w), Returns ()))"

fun handle_step ::
  "('e \<Rightarrow> 8 word \<Rightarrow> bool) \<Rightarrow> 'e handle_op \<Rightarrow> PoolConn \<Rightarrow> world
     \<Rightarrow> (PoolConn \<times> world) \<times> unit outcome" where
  "handle_step is_code OpClose h w =
     (case PoolConn_Close (Some h) w of (w1, r) \<Rightarrow> ((h, w1), r))"
| "handle_step is_code OpMarkUnusable h w =
     (case MarkUnusable (Some h) of
        Returns h1 \<Rightarrow> ((h1, w), Returns ())
      | Panics \<Rightarrow> ((h, w), Panics)
      | Blocks \<Rightarrow> ((h, w), Blocks))"
| "handle_step is_code (OpAutoClose err) h w =
     (case AutoClose is_code (Some h) err w of
        (w1, Returns (Some h1)) \<Rightarrow> ((h1, w1), Returns ())
      | (w1, Returns None) \<Rightarrow> ((h, w1), Returns ())
      | (w1, Panics) \<Rightarrow> ((h, w1), Panics)
      | (w1, Blocks) \<Rightarrow> ((h, w1), Blocks))"
| "handle_step is_code OpGetLogger h w = ((h, w), Returns ())"
| "handle_step is_code opn h w = delegate h w"

text \<open>The calls of a list one after the other, up to the first that does not return.\<close>

fun run_ops ::
  "('e \<Rightarrow> 8 word \<Rightarrow> bool) \<Rightarrow> 'e handle_op list \<Rightarrow> PoolConn \<Rightarrow> world
     \<Rightarrow> (PoolConn \<times> world) \<times> unit outcome" where
  "run_ops is_code [] h w = ((h, w), Returns ())"
| "run_ops is_code (opn # opns) h w =
     (case handle_step is_code opn h w of
        ((h1, w1), Returns u) \<Rightarrow> run_ops is_code opns h1 w1
      | (s, Panics) \<Rightarrow> (s, Panics)
      | (s, Blocks) \<Rightarrow> (s, Blocks))"

subsection \<open>Well-formed pool states\<close>

text \<open>
  What \<open>NewChannelPool\<close> sets up and the methods keep, as long as the factory gives no nil
  client without an error: no nil in the store, at most \<open>cap\<close> stored values, an open
  pool's channel is open, and a closed pool's channel is closed and empty (\<open>Close\<close> sets
  the field to \<open>nil\<close>, closes the channel and empties it).
\<close>

definition pool_ok :: "world \<Rightarrow> bool" where
  "pool_ok w =
     (None \<notin> set (buf (store w)) \<and> length (buf (store w)) \<le> cap (store w) \<and>
      (if conns_set w then \<not> chan_closed (store w)
       else chan_closed (store w) \<and> buf (store w) = []))"

subsection \<open>Example states\<close>

text \<open>A factory whose call number 2 (the third) fails; call \<open>n\<close> otherwise opens the
  connection \<open>100 + n\<close>.\<close>

definition example_factory :: PoolFactory where
  "example_factory pt n =
     (if n = 2 then Inl ''dial tcp: connection refused'' else Inr (Some (100 + n)))"

text \<open>An environment in which connection 13 no longer answers.\<close>

definition example_env :: env where
  "example_env = \<lparr>e_calls = 0, e_disposed = [], e_alive = (\<lambda>c. c \<noteq> 13), e_logs = []\<rparr>"

text \<open>An open pool holding \<open>xs\<close> with capacity \<open>n\<close>, target \<open>init\<close>, liveness checks
  \<open>chk\<close>, after \<open>k\<close> factory calls; the discard codes are those of \<open>InitClientPool\<close>.\<close>

definition example_pool :: "client list \<Rightarrow> nat \<Rightarrow> int \<Rightarrow> bool \<Rightarrow> nat \<Rightarrow> world" where
  "example_pool xs n init chk k =
     \<lparr>conns_set = True, store = \<lparr>buf = xs, cap = n, chan_closed = False\<rparr>,
      aliveChecks = chk, factory = Some example_factory, pool_closeAt = [200],
      poolType = SharedPool, initialConnections = init, maxConnections = int n,
      refreshInterval = 30, calls = k, disposed = [], alive = (\<lambda>c. c \<noteq> 13), logs = []\<rparr>"

definition example_handle :: "client \<Rightarrow> bool \<Rightarrow> PoolConn" where
  "example_handle x u = \<lparr>Conn = x, unusable = u, closeAt = [200]\<rparr>"

text \<open>Error signals for the examples: nil, an ldap error with its result code, any other
  error; and \<open>ldap.IsErrorWithCode\<close> on them.\<close>

datatype signal = NilError | LdapError "8 word" | OtherError string

fun example_is_code :: "signal \<Rightarrow> 8 word \<Rightarrow> bool" where
  "example_is_code (LdapError rc) code = (rc = code)"
| "example_is_code s code = False"

section \<open>Auxiliary facts\<close>

subsection \<open>No release waits; disposals accumulate\<close>

lemma client_Close_not_Blocks: "snd (client_Close x w) \<noteq> Blocks"
  by (simp add: client_Close_def split: option.splits)

lemma put_locked_not_Blocks: "snd (put_locked w x) \<noteq> Blocks"
  by (simp add: put_locked_def client_Close_not_Blocks split: send.splits)

lemma NewConn_not_Blocks: "snd (NewConn w) \<noteq> Blocks"
  by (simp add: NewConn_def call_factory_def call_fn_def split: option.splits sum.splits)

lemma put_not_Blocks: "snd (put w x) \<noteq> Blocks"
proof (cases x)
  case None
  obtain w1 r where n: "NewConn (logf ''ldap connection is nil. recreating'' w) = (w1, r)"
    by (cases "NewConn (logf ''ldap connection is nil. recreating'' w)")
  with NewConn_not_Blocks [of "logf ''ldap connection is nil. recreating'' w"]
  have "r \<noteq> Blocks" by simp
  with None n show ?thesis
    by (simp add: put_def put_locked_not_Blocks split: outcome.splits sum.splits)
next
  case (Some c)
  then show ?thesis by (simp add: put_def put_locked_not_Blocks)
qed

text \<open>The list of disposed connections only grows.\<close>

lemma client_Close_disposed: "set (disposed w) \<subseteq> set (disposed (fst (client_Close x w)))"
  by (auto simp: client_Close_def split: option.splits)

lemma NewConn_disposed: "disposed (fst (NewConn w)) = disposed w"
  by (simp add: NewConn_def call_factory_def call_fn_def logf_def split: option.splits sum.splits)

lemma put_locked_disposed: "set (disposed w) \<subseteq> set (disposed (fst (put_locked w x)))"
  using client_Close_disposed [of w x]
  by (auto simp: put_locked_def split: send.splits)

lemma put_disposed: "set (disposed w) \<subseteq> set (disposed (fst (put w x)))"
proof (cases x)
  case None
  let ?w0 = "logf ''ldap connection is nil. recreating'' w"
  obtain w1 r where n: "NewConn ?w0 = (w1, r)" by (cases "NewConn ?w0")
  with NewConn_disposed [of ?w0] have d: "disposed w1 = disposed w" by (simp add: logf_def)
  show ?thesis
  proof (cases r)
    case (Returns v)
    show ?thesis
    proof (cases v)
      case (Inl e)
      with None n Returns d show ?thesis by (simp add: put_def)
    next
      case (Inr pConn)
      with None n Returns d put_locked_disposed [of w1 "Conn pConn"] show ?thesis
        by (simp add: put_def)
    qed
  next
    case Panics
    with None n d show ?thesis by (simp add: put_def)
  next
    case Blocks
    with None n d show ?thesis by (simp add: put_def)
  qed
next
  case (Some c)
  with put_locked_disposed [of w x] show ?thesis by (simp add: put_def)
qed

lemma Close_unusable_disposes:
  assumes "Conn h = Some c"
  shows "c \<in> set (disposed (fst (Close_unusable h w)))"
proof -
  let ?w2 = "(logf ''Closing unusable connection'' w)\<lparr>disposed := disposed w @ [c]\<rparr>"
  obtain w3 r where n: "NewConn ?w2 = (w3, r)" by (cases "NewConn ?w2")
  with NewConn_disposed [of ?w2] have d: "c \<in> set (disposed w3)" by (simp add: logf_def)
  have cu: "Close_unusable h w =
      (case r of Returns (Inr conn) \<Rightarrow> put w3 (Conn conn)
               | Returns (Inl e) \<Rightarrow> (w3, Panics)
               | Panics \<Rightarrow> (w3, Panics) | Blocks \<Rightarrow> (w3, Blocks))"
    using assms n by (simp add: Close_unusable_def Let_def client_Close_def logf_def)
  show ?thesis
  proof (cases r)
    case (Returns v)
    then show ?thesis using cu d put_disposed [of w3] by (cases v) auto
  next
    case Panics
    then show ?thesis using cu d by simp
  next
    case Blocks
    then show ?thesis using cu d by simp
  qed
qed

subsection \<open>Closing an open pool\<close>

lemma drain_all:
  "None \<notin> set xs \<Longrightarrow> buf (store w) = xs \<Longrightarrow>
   drain xs w = (w\<lparr>store := (store w)\<lparr>buf := []\<rparr>, disposed := disposed w @ map the xs\<rparr>, Returns ())"
proof (induction xs arbitrary: w)
  case Nil
  then show ?case by simp
next
  case (Cons x xs)
  from Cons.prems obtain c where x: "x = Some c" by (cases x) auto
  let ?w1 = "w\<lparr>store := (store w)\<lparr>buf := xs\<rparr>, disposed := disposed w @ [c]\<rparr>"
  have "drain (x # xs) w = drain xs ?w1"
    by (simp add: x client_Close_def)
  also have "\<dots> = (?w1\<lparr>store := (store ?w1)\<lparr>buf := []\<rparr>, disposed := disposed ?w1 @ map the xs\<rparr>, Returns ())"
    using Cons.prems by (intro Cons.IH) auto
  finally show ?case by (simp add: x)
qed

lemma Close_open:
  assumes "conns_set w" "\<not> chan_closed (store w)" "None \<notin> set (buf (store w))"
  shows "Close w =
     (w\<lparr>conns_set := False, factory := None,
        store := (store w)\<lparr>buf := [], chan_closed := True\<rparr>,
        disposed := disposed w @ map the (buf (store w))\<rparr>, Returns ())"
  using assms by (simp add: Close_def Let_def drain_all)

lemma Close_closed:
  "\<not> conns_set w \<Longrightarrow> Close w = (w\<lparr>conns_set := False, factory := None\<rparr>, Returns ())"
  by (simp add: Close_def Let_def)

subsection \<open>The construction loop\<close>

lemma fill_fail:
  assumes "i < k"
    and "\<forall>j<i. f (poolType c) (calls c + j) = Inr (Some (g j))"
    and "f (poolType c) (calls c + i) = Inl msg"
    and "conns_set c" "\<not> chan_closed (store c)"
    and "length (buf (store c)) + i \<le> cap (store c)"
    and "None \<notin> set (buf (store c))"
  shows "fill (Some f) k c =
     Returns (Fail (ErrorsNew (''factory is not able to fill the pool: '' @ msg))
       \<lparr>e_calls = calls c + i + 1,
        e_disposed = disposed c @ map the (buf (store c)) @ map g [0..<i],
        e_alive = alive c, e_logs = logs c\<rparr>)"
  using assms
proof (induction i arbitrary: k c g)
  case 0
  then obtain k' where k: "k = Suc k'" by (cases k) auto
  let ?c1 = "c\<lparr>calls := Suc (calls c)\<rparr>"
  have cl: "Close ?c1 =
     (?c1\<lparr>conns_set := False, factory := None,
        store := (store ?c1)\<lparr>buf := [], chan_closed := True\<rparr>,
        disposed := disposed ?c1 @ map the (buf (store ?c1))\<rparr>, Returns ())"
    using "0.prems" by (intro Close_open) auto
  show ?case using "0.prems"
    by (simp add: k call_fn_def cl env_of_def)
next
  case (Suc i)
  then obtain k' where k: "k = Suc k'" by (cases k) auto
  let ?c1 = "c\<lparr>calls := calls c + 1, store := (store c)\<lparr>buf := buf (store c) @ [Some (g 0)]\<rparr>\<rparr>"
  from Suc.prems have f0: "f (poolType c) (calls c) = Inr (Some (g 0))" by force
  have room: "length (buf (store c)) < cap (store c)" using Suc.prems by simp
  have step: "fill (Some f) k c = fill (Some f) k' ?c1"
    using Suc.prems room by (simp add: k call_fn_def f0 chan_send_def)
  have ih: "fill (Some f) k' ?c1 =
     Returns (Fail (ErrorsNew (''factory is not able to fill the pool: '' @ msg))
       \<lparr>e_calls = calls ?c1 + i + 1,
        e_disposed = disposed ?c1 @ map the (buf (store ?c1)) @ map (g \<circ> Suc) [0..<i],
        e_alive = alive ?c1, e_logs = logs ?c1\<rparr>)"
  proof (rule Suc.IH)
    show "i < k'" using Suc.prems k by simp
    show "\<forall>j<i. f (poolType ?c1) (calls ?c1 + j) = Inr (Some ((g \<circ> Suc) j))"
      using Suc.prems(2) by auto
    show "f (poolType ?c1) (calls ?c1 + i) = Inl msg" using Suc.prems(3) by simp
    show "conns_set ?c1" using Suc.prems by simp
    show "\<not> chan_closed (store ?c1)" using Suc.prems by simp
    show "length (buf (store ?c1)) + i \<le> cap (store ?c1)" using Suc.prems by simp
    show "None \<notin> set (buf (store ?c1))" using Suc.prems by simp
  qed
  have m: "map g [0..<Suc i] = g 0 # map (g \<circ> Suc) [0..<i]"
    by (simp only: map_map [symmetric] map_Suc_upt upt_conv_Cons [of 0 "Suc i"]) simp
  show ?case unfolding step ih using m by simp
qed

lemma fill_ok:
  assumes "\<forall>j<k. f (poolType c) (calls c + j) = Inr (Some (g j))"
    and "\<not> chan_closed (store c)"
    and "length (buf (store c)) + k \<le> cap (store c)"
  shows "fill (Some f) k c =
     Returns (Pool (c\<lparr>calls := calls c + k,
                      store := (store c)\<lparr>buf := buf (store c) @ map (Some \<circ> g) [0..<k]\<rparr>\<rparr>))"
  using assms
proof (induction k arbitrary: c g)
  case 0
  then show ?case by simp
next
  case (Suc k)
  let ?c1 = "c\<lparr>calls := calls c + 1, store := (store c)\<lparr>buf := buf (store c) @ [Some (g 0)]\<rparr>\<rparr>"
  from Suc.prems have f0: "f (poolType c) (calls c) = Inr (Some (g 0))" by force
  have room: "length (buf (store c)) < cap (store c)" using Suc.prems by simp
  have step: "fill (Some f) (Suc k) c = fill (Some f) k ?c1"
    using Suc.prems room by (simp add: call_fn_def f0 chan_send_def)
  have ih: "fill (Some f) k ?c1 =
     Returns (Pool (?c1\<lparr>calls := calls ?c1 + k,
                      store := (store ?c1)\<lparr>buf := buf (store ?c1) @ map (Some \<circ> (g \<circ> Suc)) [0..<k]\<rparr>\<rparr>))"
  proof (rule Suc.IH)
    show "\<forall>j<k. f (poolType ?c1) (calls ?c1 + j) = Inr (Some ((g \<circ> Suc) j))"
      using Suc.prems(1) by auto
    show "\<not> chan_closed (store ?c1)" using Suc.prems by simp
    show "length (buf (store ?c1)) + k \<le> cap (store ?c1)" using Suc.prems by simp
  qed
  have m: "map (Some \<circ> g) [0..<Suc k] = Some (g 0) # map (Some \<circ> (g \<circ> Suc)) [0..<k]"
    by (simp only: map_map [symmetric] map_Suc_upt upt_conv_Cons [of 0 "Suc k"]) simp
  show ?case unfolding step ih m by simp
qed

lemma NewChannelPool_ok:
  assumes "0 \<le> initialCap" and "0 < maxCap" and "initialCap \<le> maxCap"
    and "\<forall>j<nat initialCap. f pt (e_calls e + j) = Inr (Some (g j))"
  shows "\<exists>w. NewChannelPool initialCap maxCap pt (Some f) ca ri e = Returns (Pool w) \<and>
           pool_ok w \<and> conns_set w \<and> factory w = Some f \<and> Len w = initialCap \<and>
           buf (store w) = map (Some \<circ> g) [0..<nat initialCap] \<and> disposed w = e_disposed e"
proof -
  let ?c = "\<lparr>conns_set = True, store = make_chan (nat maxCap), aliveChecks = False,
              factory = Some f, pool_closeAt = ca, poolType = pt,
              initialConnections = initialCap, maxConnections = maxCap,
              refreshInterval = ri,
              calls = e_calls e, disposed = e_disposed e, alive = e_alive e,
              logs = e_logs e\<rparr>"
  have "fill (Some f) (nat initialCap) ?c =
     Returns (Pool (?c\<lparr>calls := calls ?c + nat initialCap,
                      store := (store ?c)\<lparr>buf := buf (store ?c) @ map (Some \<circ> g) [0..<nat initialCap]\<rparr>\<rparr>))"
    using assms by (intro fill_ok) (auto simp: make_chan_def)
  then show ?thesis using assms
    by (auto simp: NewChannelPool_def make_chan_def pool_ok_def Len_def)
qed

subsection \<open>What a release can add to the store\<close>

lemma NewConn_store: "store (fst (NewConn w)) = store w \<and> conns_set (fst (NewConn w)) = conns_set w"
  by (simp add: NewConn_def call_factory_def call_fn_def logf_def split: option.splits sum.splits)

lemma NewConn_result:
  "NewConn w = (w1, Returns (Inr pc)) \<Longrightarrow>
   \<exists>f. factory w = Some f \<and> f (poolType w) (calls w) = Inr (Conn pc)"
  by (auto simp: NewConn_def call_factory_def call_fn_def wrapConn_def
           split: option.splits sum.splits)

lemma put_locked_store:
  "buf (store (fst (put_locked w x))) = buf (store w) \<or>
   buf (store (fst (put_locked w x))) = buf (store w) @ [x]"
  by (auto simp: put_locked_def chan_send_def client_Close_def split: option.splits)

lemma put_Some_store:
  "buf (store (fst (put w (Some c)))) = buf (store w) \<or>
   buf (store (fst (put w (Some c)))) = buf (store w) @ [Some c]"
  using put_locked_store [of w "Some c"] by (simp add: put_def)

lemma put_None_store:
  "buf (store (fst (put w None))) = buf (store w) \<or>
   (\<exists>f x. factory w = Some f \<and> f (poolType w) (calls w) = Inr x \<and>
      buf (store (fst (put w None))) = buf (store w) @ [x])"
proof -
  let ?w0 = "logf ''ldap connection is nil. recreating'' w"
  obtain w1 r where n: "NewConn ?w0 = (w1, r)" by (cases "NewConn ?w0")
  with NewConn_store [of ?w0] have s: "store w1 = store w" by (simp add: logf_def)
  show ?thesis
  proof (cases r)
    case (Returns v)
    show ?thesis
    proof (cases v)
      case (Inl e)
      with n Returns s show ?thesis by (simp add: put_def)
    next
      case (Inr pc)
      with NewConn_result [of ?w0 w1 pc] n Returns
      obtain f where f: "factory w = Some f" "f (poolType w) (calls w) = Inr (Conn pc)"
        by (auto simp: logf_def)
      from n Returns Inr have "put w None = put_locked w1 (Conn pc)" by (simp add: put_def)
      with put_locked_store [of w1 "Conn pc"] s f show ?thesis by auto
    qed
  next
    case Panics
    with n s show ?thesis by (simp add: put_def)
  next
    case Blocks
    with n s show ?thesis by (simp add: put_def)
  qed
qed

lemma NewConn_frame:
  "factory (fst (NewConn w)) = factory w \<and> poolType (fst (NewConn w)) = poolType w \<and>
   calls w \<le> calls (fst (NewConn w))"
  by (simp add: NewConn_def call_factory_def call_fn_def logf_def split: option.splits sum.splits)

lemma Close_unusable_store:
  "buf (store (fst (Close_unusable h w))) = buf (store w) \<or>
   (\<exists>f n x. factory w = Some f \<and> calls w \<le> n \<and> f (poolType w) n = Inr x \<and>
      buf (store (fst (Close_unusable h w))) = buf (store w) @ [x])"
proof -
  let ?w1 = "logf ''Closing unusable connection'' w"
  let ?w2 = "case Conn h of None \<Rightarrow> ?w1 | Some c \<Rightarrow> fst (client_Close (Some c) ?w1)"
  have w2: "store ?w2 = store w" "factory ?w2 = factory w" "poolType ?w2 = poolType w"
    "calls ?w2 = calls w"
    by (simp_all add: logf_def client_Close_def split: option.splits)
  obtain w3 r where n: "NewConn ?w2 = (w3, r)" by (cases "NewConn ?w2")
  with NewConn_store [of ?w2] w2 have s: "store w3 = store w" by simp
  from n NewConn_frame [of ?w2] w2
  have fr: "factory w3 = factory w" "poolType w3 = poolType w" "calls w \<le> calls w3" by simp_all
  have cu: "Close_unusable h w =
      (case r of Returns (Inr conn) \<Rightarrow> put w3 (Conn conn)
               | Returns (Inl e) \<Rightarrow> (w3, Panics)
               | Panics \<Rightarrow> (w3, Panics) | Blocks \<Rightarrow> (w3, Blocks))"
    using n by (simp add: Close_unusable_def Let_def)
  show ?thesis
  proof (cases r)
    case (Returns v)
    show ?thesis
    proof (cases v)
      case (Inl e)
      with cu Returns s show ?thesis by simp
    next
      case (Inr pc)
      with NewConn_result [of ?w2 w3 pc] n Returns w2
      obtain f where f: "factory w = Some f" "f (poolType w) (calls w) = Inr (Conn pc)"
        by auto
      from cu Returns Inr have e: "Close_unusable h w = put w3 (Conn pc)" by simp
      show ?thesis
      proof (cases "Conn pc")
        case None
        with e put_None_store [of w3] s fr show ?thesis by auto
      next
        case (Some c)
        with e put_Some_store [of w3 c] s f show ?thesis by auto
      qed
    qed
  next
    case Panics
    with cu s show ?thesis by simp
  next
    case Blocks
    with cu s show ?thesis by simp
  qed
qed

subsection \<open>Releases and checkouts keep a pool well-formed\<close>

lemma put_Some_pool_ok: "pool_ok w \<Longrightarrow> pool_ok (fst (put w (Some c)))"
  by (simp add: pool_ok_def put_def put_locked_def chan_send_def client_Close_def
      split: if_splits)

lemma Get_pool_ok:
  assumes "pool_ok w"
  shows "pool_ok (fst (Get w))"
proof (cases "conns_set w \<and> buf (store w) \<noteq> []")
  case False
  with assms show ?thesis
    by (auto simp: Get_def Get_select_def chan_recv_def pool_ok_def split: list.splits)
next
  case True
  then obtain x rest where b: "buf (store w) = x # rest" by (cases "buf (store w)") auto
  with assms obtain c where x: "x = Some c" by (cases x) (auto simp: pool_ok_def)
  let ?w1 = "w\<lparr>store := (store w)\<lparr>buf := rest\<rparr>\<rparr>"
  have ok1: "pool_ok ?w1" using assms b True by (simp add: pool_ok_def)
  show ?thesis
  proof (cases "\<not> aliveChecks w \<or> alive w c")
    case True
    with \<open>conns_set w \<and> buf (store w) \<noteq> []\<close> b x ok1 show ?thesis
      by (simp add: Get_def Get_select_def chan_recv_def isAlive_def)
  next
    case False
    let ?w2 = "?w1\<lparr>logs := logs w @ [''connection dead'' @ [CHR 0x0A]],
                   disposed := disposed w @ [c]\<rparr>"
    have g: "Get w = NewConn ?w2"
      using False \<open>conns_set w \<and> buf (store w) \<noteq> []\<close> b x
      by (simp add: Get_def Get_select_def chan_recv_def isAlive_def logf_def client_Close_def)
    have "pool_ok ?w2" using ok1 by (auto simp: pool_ok_def split: if_splits)
    with NewConn_store [of ?w2] have "pool_ok (fst (NewConn ?w2))"
      by (auto simp: pool_ok_def split: if_splits)
    with g show ?thesis by simp
  qed
qed

subsection \<open>A closed pool stays closed\<close>

text \<open>Nothing but \<open>NewChannelPool\<close> sets the field \<open>conns\<close>: a closed pool stays closed,
  and its channel stays closed and empty.\<close>

lemma put_locked_closed:
  "\<not> conns_set w \<Longrightarrow> store (fst (put_locked w x)) = store w \<and> \<not> conns_set (fst (put_locked w x))"
  by (simp add: put_locked_def client_Close_def split: option.splits)

lemma put_closed:
  assumes "\<not> conns_set w"
  shows "store (fst (put w x)) = store w \<and> \<not> conns_set (fst (put w x))"
proof (cases x)
  case None
  let ?w0 = "logf ''ldap connection is nil. recreating'' w"
  obtain w1 r where n: "NewConn ?w0 = (w1, r)" by (cases "NewConn ?w0")
  with NewConn_store [of ?w0] assms have s: "store w1 = store w" "\<not> conns_set w1"
    by (simp_all add: logf_def)
  show ?thesis
  proof (cases r)
    case (Returns v)
    with None n s put_locked_closed [OF s(2)] show ?thesis
      by (cases v) (simp_all add: put_def)
  next
    case Panics
    with None n s show ?thesis by (simp add: put_def)
  next
    case Blocks
    with None n s show ?thesis by (simp add: put_def)
  qed
next
  case (Some c)
  with put_locked_closed [OF assms, of x] show ?thesis by (simp add: put_def)
qed

lemma PoolConn_Close_closed:
  assumes "\<not> conns_set w"
  shows "store (fst (PoolConn_Close p w)) = store w \<and> \<not> conns_set (fst (PoolConn_Close p w))"
proof (cases p)
  case None
  with assms show ?thesis by (simp add: PoolConn_Close_def)
next
  case (Some h)
  show ?thesis
  proof (cases "unusable h")
    case False
    with Some put_closed [OF assms] show ?thesis by (simp add: PoolConn_Close_def)
  next
    case True
    let ?w1 = "logf ''Closing unusable connection'' w"
    let ?w2 = "case Conn h of None \<Rightarrow> ?w1 | Some c \<Rightarrow> fst (client_Close (Some c) ?w1)"
    have w2: "store ?w2 = store w" "\<not> conns_set ?w2"
      using assms by (simp_all add: logf_def client_Close_def split: option.splits)
    obtain w3 r where n: "NewConn ?w2 = (w3, r)" by (cases "NewConn ?w2")
    with NewConn_store [of ?w2] w2 have s: "store w3 = store w" "\<not> conns_set w3" by simp_all
    have cu: "PoolConn_Close p w =
      (case r of Returns (Inr conn) \<Rightarrow> put w3 (Conn conn)
               | Returns (Inl e) \<Rightarrow> (w3, Panics)
               | Panics \<Rightarrow> (w3, Panics) | Blocks \<Rightarrow> (w3, Blocks))"
      using n Some True by (simp add: PoolConn_Close_def Close_unusable_def Let_def)
    show ?thesis
    proof (cases r)
      case (Returns v)
      with cu s put_closed [OF s(2)] show ?thesis by (cases v) simp_all
    next
      case Panics
      with cu s show ?thesis by simp
    next
      case Blocks
      with cu s show ?thesis by simp
    qed
  qed
qed

subsection \<open>The handle\<close>

lemma AutoClose_loop_eq:
  "AutoClose_loop is_code err codes h w = (h1, w1) \<Longrightarrow>
   h1 = (if \<exists>code\<in>set codes. is_code err code then h\<lparr>unusable := True\<rparr> else h)"
  by (induction codes) (auto split: if_splits)

lemma AutoClose_Some:
  assumes "AutoClose is_code (Some h) err w = (w1, out)"
  shows "out = Returns (Some (if \<exists>code\<in>set (closeAt h). is_code err code
                        then h\<lparr>unusable := True\<rparr> else h))"
proof -
  obtain h1 w2 where l: "AutoClose_loop is_code err (closeAt h) h w = (h1, w2)"
    by (cases "AutoClose_loop is_code err (closeAt h) h w")
  with assms have "out = Returns (Some h1)"
    by (simp add: AutoClose_def AutoClose_body_def)
  with AutoClose_loop_eq [OF l] show ?thesis by simp
qed

lemma AutoClose_None:
  "snd (AutoClose is_code None err w) = Returns None"
  by (simp add: AutoClose_def AutoClose_body_def)

lemma step_keeps:
  assumes "handle_step is_code opn h w = ((h1, w1), out)" and "unusable h"
  shows "unusable h1 \<and> Conn h1 = Conn h"
proof (cases opn)
  case OpClose
  with assms show ?thesis by (auto split: prod.splits)
next
  case OpMarkUnusable
  with assms show ?thesis by (auto simp: MarkUnusable_def)
next
  case (OpAutoClose err)
  obtain w2 r where a: "AutoClose is_code (Some h) err w = (w2, r)"
    by (cases "AutoClose is_code (Some h) err w")
  from AutoClose_Some [OF a] a assms OpAutoClose show ?thesis
    by (auto split: if_splits)
next
  case OpGetLogger
  with assms show ?thesis by simp
qed (use assms in \<open>auto simp: delegate_def split: option.splits\<close>)

lemma run_keeps:
  "run_ops is_code opns h w = ((h1, w1), out) \<Longrightarrow> unusable h \<Longrightarrow> unusable h1 \<and> Conn h1 = Conn h"
proof (induction opns arbitrary: h w)
  case Nil
  then show ?case by simp
next
  case (Cons opn opns)
  obtain h2 w2 r where st: "handle_step is_code opn h w = ((h2, w2), r)"
    by (metis surj_pair)
  from step_keeps [OF st Cons.prems(2)] have k: "unusable h2" "Conn h2 = Conn h" by simp_all
  show ?case
  proof (cases r)
    case (Returns u)
    with Cons.prems st have "run_ops is_code opns h2 w2 = ((h1, w1), out)" by simp
    from Cons.IH [OF this k(1)] k show ?thesis by simp
  next
    case Panics
    with Cons.prems st k show ?thesis by simp
  next
    case Blocks
    with Cons.prems st k show ?thesis by simp
  qed
qed

subsection \<open>Release of nil\<close>

lemma put_nil:
  assumes "conns_set w" "\<not> chan_closed (store w)" "factory w = Some f"
  shows "put w None =
     (let w1 = w\<lparr>logs := logs w @ [''ldap connection is nil. recreating''], calls := calls w + 1\<rparr>
      in case f (poolType w) (calls w) of
           Inl msg \<Rightarrow>
             (w1\<lparr>logs := logs w1 @ [''failed to create NewConn for pooldap.channelPool '' @ msg]\<rparr>,
              Returns ())
         | Inr None \<Rightarrow>
             (if length (buf (store w)) < cap (store w)
              then (w1\<lparr>store := (store w)\<lparr>buf := buf (store w) @ [None]\<rparr>\<rparr>, Returns ())
              else (w1, Panics))
         | Inr (Some r) \<Rightarrow>
             (if length (buf (store w)) < cap (store w)
              then (w1\<lparr>store := (store w)\<lparr>buf := buf (store w) @ [Some r]\<rparr>\<rparr>, Returns ())
              else (w1\<lparr>disposed := disposed w @ [r]\<rparr>, Returns ())))"
  using assms
  by (simp add: put_def Let_def logf_def client_Close_def NewConn_def
        call_factory_def call_fn_def wrapConn_def put_locked_def chan_send_def
      split: sum.splits option.splits)

subsection \<open>The example states come out of the constructor\<close>

lemma example_pool_empty_constructed:
  "NewChannelPool 0 1 SharedPool (Some example_factory) [200] 30 example_env =
     Returns (Pool (example_pool [] 1 0 False 0))"
  by (simp add: NewChannelPool_def make_chan_def example_pool_def example_env_def)

lemma example_pool_filled_constructed:
  "NewChannelPool 2 2 SharedPool (Some example_factory) [200] 30 example_env =
     Returns (Pool (example_pool [Some 100, Some 101] 2 2 False 2))"
proof -
  have g: "\<forall>j<nat 2. example_factory SharedPool (e_calls example_env + j) = Inr (Some (100 + j))"
    by (simp add: example_factory_def example_env_def)
  have u: "[0..<2] = [0, Suc 0]" by (simp add: upt_rec)
  have "fill (Some example_factory) 2 (example_pool [] 2 2 False 0) =
      Returns (Pool ((example_pool [] 2 2 False 0)
        \<lparr>calls := calls (example_pool [] 2 2 False 0) + 2,
         store := (store (example_pool [] 2 2 False 0))
           \<lparr>buf := buf (store (example_pool [] 2 2 False 0)) @
                   map (Some \<circ> (\<lambda>j. 100 + j)) [0..<2]\<rparr>\<rparr>))"
    using g by (intro fill_ok) (simp_all add: example_pool_def example_env_def)
  then show ?thesis
    by (simp add: NewChannelPool_def make_chan_def example_pool_def example_env_def u)
qed

section \<open>The claims\<close>

text \<open>
  Claim C1. The claim says that a checkout on an open pool whose store is empty does not
  wait but creates a connection through the factory. The \<open>select\<close> of \<open>Get\<close> has the
  receive as its only case and no \<open>default\<close>: on an open pool with an empty store the call
  is suspended, the state is unchanged and the factory is not called. The comment above
  \<open>Get\<close> promises the creation; the code does not do it.
\<close>

theorem Get_empty_store_blocks:
  assumes "conns_set w" and "buf (store w) = []" and "\<not> chan_closed (store w)"
  shows "Get w = (w, Blocks)"
  using assms by (simp add: Get_def Get_select_def chan_recv_def)

theorem Get_empty_store_blocks_witness:
  "conns_set (example_pool [] 1 0 False 0) \<and>
   buf (store (example_pool [] 1 0 False 0)) = [] \<and>
   factory (example_pool [] 1 0 False 0) = Some example_factory \<and>
   Get (example_pool [] 1 0 False 0) = (example_pool [] 1 0 False 0, Blocks)"
  using Get_empty_store_blocks [of "example_pool [] 1 0 False 0"]
  by (simp add: example_pool_def)

text \<open>
  Claim C2. The claim says that a factory failure in a refill tick is only logged and that
  the loop goes on. In the error branch \<open>conn\<close> is the nil pointer and
  \<open>conn.MarkUnusable()\<close> writes through it: whenever the pool holds fewer connections
  than its target and the factory fails at the first call of the tick, the tick panics
  after \<open>NewConn\<close> has logged the failure, before ``could not refresh connection'' is
  logged, and \<open>RefillPool\<close> ends with that panic.
\<close>

theorem RefillTick_factory_failure_panics:
  assumes "factory w = Some f" and "f (poolType w) (calls w) = Inl msg"
    and "Len w < initialConnections w"
  shows "RefillTick w =
           (w\<lparr>logs := logs w @ [''refreshing LDAP connections'',
                  ''failed to create NewConn for pooldap.channelPool '' @ msg],
              calls := calls w + 1\<rparr>, Panics) \<and>
         snd (RefillPool (Suc n) w) = Panics"
proof -
  let ?w1 = "logf ''refreshing LDAP connections'' w"
  from assms(3) obtain k where k: "nat (initialConnections ?w1 - Len ?w1) = Suc k"
    by (cases "nat (initialConnections ?w1 - Len ?w1)")
       (auto simp: logf_def Len_def split: if_splits)
  have t: "RefillTick w =
      (w\<lparr>logs := logs w @ [''refreshing LDAP connections'',
            ''failed to create NewConn for pooldap.channelPool '' @ msg],
         calls := calls w + 1\<rparr>, Panics)"
    using assms(1,2)
    by (simp add: RefillTick_def Let_def k)
       (simp add: NewConn_def call_factory_def call_fn_def logf_def MarkUnusable_def)
  then show ?thesis by simp
qed

theorem RefillTick_factory_failure_panics_witness:
  "Len (example_pool [] 1 1 False 2) < initialConnections (example_pool [] 1 1 False 2) \<and>
   example_factory SharedPool 2 = Inl ''dial tcp: connection refused'' \<and>
   snd (RefillTick (example_pool [] 1 1 False 2)) = Panics \<and>
   snd (RefillPool (Suc 0) (example_pool [] 1 1 False 2)) = Panics"
  using RefillTick_factory_failure_panics
          [of "example_pool [] 1 1 False 2" example_factory "''dial tcp: connection refused''" 0]
  by (simp add: example_pool_def example_factory_def Len_def)

text \<open>
  Claim C3 as stated fails when the store is at capacity: the handle with connection 7 is
  unusable, the store holds connection 8 and has capacity 1; the release disposes 7, the
  factory makes 100, and \<open>put\<close> disposes 100 as well. The store still holds 8 alone.
\<close>

theorem Close_unusable_full_store_counterexample:
  "unusable (example_handle (Some 7) True) \<and>
   example_factory SharedPool 0 = Inr (Some 100) \<and>
   snd (PoolConn_Close (Some (example_handle (Some 7) True)) (example_pool [Some 8] 1 1 False 0))
     = Returns () \<and>
   calls (fst (PoolConn_Close (Some (example_handle (Some 7) True))
                 (example_pool [Some 8] 1 1 False 0))) = 1 \<and>
   buf (store (fst (PoolConn_Close (Some (example_handle (Some 7) True))
                 (example_pool [Some 8] 1 1 False 0)))) = [Some 8] \<and>
   disposed (fst (PoolConn_Close (Some (example_handle (Some 7) True))
                 (example_pool [Some 8] 1 1 False 0))) = [7, 100]"
  by (simp add: example_handle_def example_pool_def example_factory_def PoolConn_Close_def
        Close_unusable_def Let_def logf_def client_Close_def NewConn_def call_factory_def
        call_fn_def wrapConn_def put_def put_locked_def chan_send_def)

text \<open>
  Claim C3, amended. For every handle whose unusable flag is set, released on an open pool
  whose factory answers this call with a non-nil connection \<open>r\<close>: \<open>Close\<close> returns, it
  disposes the wrapped connection (when there is one) and never puts it into the store, it
  calls the factory exactly once, and \<open>r\<close> is appended to the store when the store is
  below capacity and disposed when the store is at capacity.
\<close>

theorem Close_unusable_replaces:
  assumes "unusable h" and "conns_set w" and "\<not> chan_closed (store w)"
    and "factory w = Some f" and "f (poolType w) (calls w) = Inr (Some r)"
  shows "PoolConn_Close (Some h) w =
     (let old = (case Conn h of None \<Rightarrow> [] | Some c \<Rightarrow> [c]);
          w1 = w\<lparr>logs := logs w @ [''Closing unusable connection''], calls := calls w + 1\<rparr>
      in if length (buf (store w)) < cap (store w)
         then (w1\<lparr>disposed := disposed w @ old,
                  store := (store w)\<lparr>buf := buf (store w) @ [Some r]\<rparr>\<rparr>, Returns ())
         else (w1\<lparr>disposed := disposed w @ old @ [r]\<rparr>, Returns ()))"
  using assms
  by (cases "Conn h")
     (simp_all add: PoolConn_Close_def Close_unusable_def Let_def logf_def client_Close_def
        NewConn_def call_factory_def call_fn_def wrapConn_def put_def put_locked_def chan_send_def)

theorem Close_unusable_replaces_witness:
  "unusable (example_handle (Some 7) True) \<and>
   PoolConn_Close (Some (example_handle (Some 7) True)) (example_pool [Some 8] 2 2 False 0) =
     ((example_pool [Some 8, Some 100] 2 2 False 1)
        \<lparr>disposed := [7], logs := [''Closing unusable connection'']\<rparr>, Returns ())"
  using Close_unusable_replaces
          [of "example_handle (Some 7) True" "example_pool [Some 8] 2 2 False 0" example_factory 100]
  by (simp add: example_handle_def example_pool_def example_factory_def)

text \<open>
  Claim C4. For valid parameters (\<open>0 \<le> initialCap \<le> maxCap\<close>, \<open>0 < maxCap\<close>), when the
  factory invocations before number \<open>i\<close> (counted from 0, \<open>i < initialCap\<close>) give the
  connections \<open>g 0, \<dots>, g (i - 1)\<close> and invocation \<open>i\<close> fails with text \<open>msg\<close>,
  \<open>NewChannelPool\<close> returns no pool but the error ``factory is not able to fill the
  pool: \<open>msg\<close>'', after \<open>i + 1\<close> factory calls, and every connection it created has been
  disposed, in the order of creation.
\<close>

theorem NewChannelPool_fails_atomically:
  assumes "0 \<le> initialCap" and "0 < maxCap" and "initialCap \<le> maxCap"
    and "i < nat initialCap"
    and "\<forall>j<i. f pt (e_calls e + j) = Inr (Some (g j))"
    and "f pt (e_calls e + i) = Inl msg"
  shows "NewChannelPool initialCap maxCap pt (Some f) ca ri e =
     Returns (Fail (ErrorsNew (''factory is not able to fill the pool: '' @ msg))
       (e\<lparr>e_calls := e_calls e + i + 1, e_disposed := e_disposed e @ map g [0..<i]\<rparr>))"
proof -
  let ?c = "\<lparr>conns_set = True, store = make_chan (nat maxCap), aliveChecks = False,
              factory = Some f, pool_closeAt = ca, poolType = pt,
              initialConnections = initialCap, maxConnections = maxCap,
              refreshInterval = ri,
              calls = e_calls e, disposed = e_disposed e, alive = e_alive e,
              logs = e_logs e\<rparr>"
  have "fill (Some f) (nat initialCap) ?c =
     Returns (Fail (ErrorsNew (''factory is not able to fill the pool: '' @ msg))
       \<lparr>e_calls = calls ?c + i + 1,
        e_disposed = disposed ?c @ map the (buf (store ?c)) @ map g [0..<i],
        e_alive = alive ?c, e_logs = logs ?c\<rparr>)"
    using assms by (intro fill_fail) (auto simp: make_chan_def)
  then show ?thesis using assms by (simp add: NewChannelPool_def make_chan_def)
qed

theorem NewChannelPool_fails_atomically_witness:
  "NewChannelPool 3 3 SharedPool (Some example_factory) [200] 30 example_env =
     Returns (Fail (ErrorsNew ''factory is not able to fill the pool: dial tcp: connection refused'')
       (example_env\<lparr>e_calls := 3, e_disposed := [100, 101]\<rparr>))"
proof -
  have h: "\<forall>j<2. example_factory SharedPool (e_calls example_env + j) = Inr (Some (100 + j))"
    by (simp add: example_factory_def example_env_def)
  have u: "[0..<2] = [0, Suc 0]" by (simp add: upt_rec)
  from NewChannelPool_fails_atomically
         [of 3 3 2 example_factory SharedPool example_env "\<lambda>j. 100 + j"
             "''dial tcp: connection refused''" "[200]" 30, OF _ _ _ _ h]
  show ?thesis by (simp add: example_factory_def example_env_def u)
qed

text \<open>
  Claim C5. From every well-formed state \<open>Close\<close> returns and leaves a well-formed closed
  pool; and in every well-formed closed state a checkout returns \<open>ErrClosed\<close> at once and
  changes nothing, whether it starts afresh (\<open>Get\<close>, which finds the field \<open>nil\<close>) or
  had loaded the channel before the pool was closed (\<open>Get_select\<close>, which receives the
  zero value from the closed, drained channel). It neither waits nor panics.
\<close>

theorem Get_on_closed_pool_ErrClosed:
  assumes "pool_ok w"
  shows "(\<exists>w1. Close w = (w1, Returns ()) \<and> pool_ok w1 \<and> \<not> conns_set w1) \<and>
         (\<not> conns_set w \<longrightarrow>
            Get w = (w, Returns (Inl ErrClosed)) \<and> Get_select w = (w, Returns (Inl ErrClosed)))"
proof (cases "conns_set w")
  case True
  with assms have "\<not> chan_closed (store w)" "None \<notin> set (buf (store w))"
    by (simp_all add: pool_ok_def)
  from Close_open [OF True this] True show ?thesis
    by (simp add: pool_ok_def)
next
  case False
  with assms have st: "chan_closed (store w)" "buf (store w) = []"
    by (simp_all add: pool_ok_def)
  have "w\<lparr>store := store w\<rparr> = w" by simp
  with False st have "Get_select w = (w, Returns (Inl ErrClosed))"
    by (simp add: Get_select_def chan_recv_def)
  moreover have "pool_ok (w\<lparr>conns_set := False, factory := None\<rparr>)"
    using assms False by (simp add: pool_ok_def)
  ultimately show ?thesis using False Close_closed [OF False]
    by (simp add: Get_def)
qed

theorem Get_on_closed_pool_ErrClosed_witness:
  "pool_ok (example_pool [Some 8, Some 9] 2 2 False 0) \<and>
   snd (Close (example_pool [Some 8, Some 9] 2 2 False 0)) = Returns () \<and>
   disposed (fst (Close (example_pool [Some 8, Some 9] 2 2 False 0))) = [8, 9] \<and>
   snd (Get (fst (Close (example_pool [Some 8, Some 9] 2 2 False 0)))) = Returns (Inl ErrClosed) \<and>
   snd (Get_select (fst (Close (example_pool [Some 8, Some 9] 2 2 False 0))))
     = Returns (Inl ErrClosed)"
proof -
  let ?w = "example_pool [Some 8, Some 9] 2 2 False 0"
  have ok: "pool_ok ?w" by (simp add: pool_ok_def example_pool_def)
  from Get_on_closed_pool_ErrClosed [OF ok] obtain w1
    where c: "Close ?w = (w1, Returns ())" and ok1: "pool_ok w1" and cl: "\<not> conns_set w1"
    by blast
  from Get_on_closed_pool_ErrClosed [OF ok1] cl
  have "Get w1 = (w1, Returns (Inl ErrClosed))" "Get_select w1 = (w1, Returns (Inl ErrClosed))"
    by simp_all
  moreover have "disposed (fst (Close ?w)) = [8, 9]"
    by (simp add: example_pool_def Close_def Let_def client_Close_def)
  ultimately show ?thesis using ok c by simp
qed

text \<open>
  Claim C6. \<open>put\<close> never waits, whatever it is given. For a connection \<open>c\<close> (where an
  open pool's channel is open, as it always is): on a closed pool \<open>c\<close> is disposed; on an
  open pool whose store is at capacity \<open>c\<close> is disposed; otherwise \<open>c\<close> is appended to the
  store. In each case the call returns.
\<close>

theorem put_never_blocks:
  assumes "conns_set w \<longrightarrow> \<not> chan_closed (store w)"
  shows "snd (put w x) \<noteq> Blocks \<and>
   put w (Some c) =
     (if \<not> conns_set w then (w\<lparr>disposed := disposed w @ [c]\<rparr>, Returns ())
      else if length (buf (store w)) < cap (store w)
           then (w\<lparr>store := (store w)\<lparr>buf := buf (store w) @ [Some c]\<rparr>\<rparr>, Returns ())
           else (w\<lparr>disposed := disposed w @ [c]\<rparr>, Returns ()))"
  using assms put_not_Blocks [of w x]
  by (simp add: put_def put_locked_def chan_send_def client_Close_def)

theorem put_never_blocks_witness:
  "snd (put (example_pool [Some 8] 1 1 False 0) None) \<noteq> Blocks \<and>
   put (example_pool [Some 8] 1 1 False 0) (Some 9) =
     ((example_pool [Some 8] 1 1 False 0)\<lparr>disposed := [9]\<rparr>, Returns ()) \<and>
   put (example_pool [Some 8] 2 1 False 0) (Some 9) =
     (example_pool [Some 8, Some 9] 2 1 False 0, Returns ()) \<and>
   put (fst (Close (example_pool [] 1 1 False 0))) (Some 9) =
     ((fst (Close (example_pool [] 1 1 False 0)))\<lparr>disposed := [9]\<rparr>, Returns ())"
  using put_never_blocks [of "example_pool [Some 8] 1 1 False 0" None 9]
        put_never_blocks [of "example_pool [Some 8] 2 1 False 0" None 9]
        put_never_blocks [of "fst (Close (example_pool [] 1 1 False 0))" None 9]
  by (simp add: example_pool_def Close_def Let_def)

text \<open>
  Claim C7. \<open>AutoClose\<close> always returns, for every error signal and also on a nil
  handle (whose panic is recovered); it returns no error. On a handle \<open>h\<close> it sets the
  unusable flag if and only if the signal matches one of the codes of \<open>h\<close>, and otherwise
  leaves \<open>h\<close> as it was. A handle is made by \<open>wrapConn\<close> with the pool's codes and the
  flag unset: after \<open>AutoClose\<close> its flag says whether the signal matches one of the
  pool's codes.
\<close>

theorem AutoClose_marks_iff_code_matches:
  "snd (AutoClose is_code p err w) =
     Returns (case p of
                None \<Rightarrow> None
              | Some h \<Rightarrow>
                  Some (if \<exists>code\<in>set (closeAt h). is_code err code
                        then h\<lparr>unusable := True\<rparr> else h)) \<and>
   snd (AutoClose is_code (Some (wrapConn x (pool_closeAt w))) err w) =
     Returns (Some \<lparr>Conn = x, unusable = (\<exists>code\<in>set (pool_closeAt w). is_code err code),
                    closeAt = pool_closeAt w\<rparr>)"
proof -
  have general: "snd (AutoClose is_code q err w) =
     Returns (case q of
                None \<Rightarrow> None
              | Some h \<Rightarrow>
                  Some (if \<exists>code\<in>set (closeAt h). is_code err code
                        then h\<lparr>unusable := True\<rparr> else h))" for q
  proof (cases q)
    case None
    then show ?thesis by (simp add: AutoClose_None)
  next
    case (Some h)
    obtain w1 out where a: "AutoClose is_code (Some h) err w = (w1, out)"
      by (cases "AutoClose is_code (Some h) err w")
    from AutoClose_Some [OF a] a Some show ?thesis by simp
  qed
  from general [of p] general [of "Some (wrapConn x (pool_closeAt w))"]
  show ?thesis by (simp add: wrapConn_def)
qed

theorem AutoClose_marks_iff_code_matches_witness:
  "snd (AutoClose example_is_code (Some (example_handle (Some 7) False)) (LdapError 200)
          (example_pool [] 1 1 False 0)) = Returns (Some (example_handle (Some 7) True)) \<and>
   snd (AutoClose example_is_code (Some (example_handle (Some 7) False)) (LdapError 49)
          (example_pool [] 1 1 False 0)) = Returns (Some (example_handle (Some 7) False)) \<and>
   snd (AutoClose example_is_code (Some (example_handle (Some 7) False)) NilError
          (example_pool [] 1 1 False 0)) = Returns (Some (example_handle (Some 7) False)) \<and>
   snd (AutoClose example_is_code None (OtherError ''pool is closed'')
          (example_pool [] 1 1 False 0)) = Returns None"
  using AutoClose_marks_iff_code_matches
          [of example_is_code "Some (example_handle (Some 7) False)" "LdapError 200"
              "example_pool [] 1 1 False 0" None]
        AutoClose_marks_iff_code_matches
          [of example_is_code "Some (example_handle (Some 7) False)" "LdapError 49"
              "example_pool [] 1 1 False 0" None]
        AutoClose_marks_iff_code_matches
          [of example_is_code "Some (example_handle (Some 7) False)" NilError
              "example_pool [] 1 1 False 0" None]
        AutoClose_marks_iff_code_matches
          [of example_is_code None "OtherError ''pool is closed''" "example_pool [] 1 1 False 0"
              None]
  by (simp add: example_handle_def)

text \<open>
  Claim C8. With liveness checks on, when the connection \<open>c\<close> pulled from the store fails
  the probe, \<open>Get\<close> disposes \<open>c\<close> and calls the factory exactly once: the factory's
  client is wrapped and returned without a probe of its own, and the factory's error is
  returned to the caller.
\<close>

theorem Get_dead_connection_retries_once:
  assumes "conns_set w" and "aliveChecks w" and "buf (store w) = Some c # rest"
    and "\<not> alive w c" and "factory w = Some f"
  shows "Get w =
     (let w1 = w\<lparr>store := (store w)\<lparr>buf := rest\<rparr>,
                 logs := logs w @ [''connection dead'' @ [CHR 0x0A]],
                 disposed := disposed w @ [c],
                 calls := calls w + 1\<rparr>
      in case f (poolType w) (calls w) of
           Inl msg \<Rightarrow>
             (w1\<lparr>logs := logs w1 @ [''failed to create NewConn for pooldap.channelPool '' @ msg]\<rparr>,
              Returns (Inl (FactoryError msg)))
         | Inr x \<Rightarrow> (w1, Returns (Inr (wrapConn x (pool_closeAt w)))))"
  using assms
  by (simp add: Get_def Get_select_def chan_recv_def isAlive_def client_Close_def logf_def
      NewConn_def call_factory_def call_fn_def Let_def split: sum.splits)

theorem Get_dead_connection_retries_once_witness:
  "\<not> alive (example_pool [Some 13] 1 1 False 0) 13 \<and>
   Get (AliveChecks True (example_pool [Some 13] 1 1 False 0)) =
     ((example_pool [] 1 1 True 1)
        \<lparr>logs := [''connection dead'' @ [CHR 0x0A]], disposed := [13]\<rparr>,
      Returns (Inr (example_handle (Some 100) False))) \<and>
   Get (AliveChecks True (example_pool [Some 13] 1 1 False 2)) =
     ((example_pool [] 1 1 True 3)
        \<lparr>logs := [''connection dead'' @ [CHR 0x0A],
            ''failed to create NewConn for pooldap.channelPool dial tcp: connection refused''],
         disposed := [13]\<rparr>,
      Returns (Inl (FactoryError ''dial tcp: connection refused'')))"
  using Get_dead_connection_retries_once
          [of "AliveChecks True (example_pool [Some 13] 1 1 False 0)" 13 "[]" example_factory]
        Get_dead_connection_retries_once
          [of "AliveChecks True (example_pool [Some 13] 1 1 False 2)" 13 "[]" example_factory]
  by (simp add: AliveChecks_def example_pool_def example_factory_def example_handle_def
        wrapConn_def)

text \<open>
  Claim C9 as stated fails when the store is at capacity: \<open>put\<close> of nil on an open pool
  whose store holds connection 8 and has capacity 1 makes connection 100 through the
  factory and disposes it; it is not inserted.
\<close>

theorem put_nil_full_store_counterexample:
  "conns_set (example_pool [Some 8] 1 1 False 0) \<and>
   example_factory SharedPool 0 = Inr (Some 100) \<and>
   snd (put (example_pool [Some 8] 1 1 False 0) None) = Returns () \<and>
   calls (fst (put (example_pool [Some 8] 1 1 False 0) None)) = 1 \<and>
   buf (store (fst (put (example_pool [Some 8] 1 1 False 0) None))) = [Some 8] \<and>
   disposed (fst (put (example_pool [Some 8] 1 1 False 0) None)) = [100]"
  by (simp add: example_pool_def example_factory_def logf_def client_Close_def NewConn_def
        call_factory_def call_fn_def wrapConn_def put_def put_locked_def chan_send_def)

text \<open>
  Claim C9, amended. \<open>put\<close> of nil on an open, well-formed pool calls the factory once and
  returns. When the factory fails nothing changes but the log and the call count. When the
  factory gives a non-nil connection \<open>r\<close>, \<open>r\<close> is appended to the store if the store
  is below capacity and disposed if the store is at capacity. In both cases the pool stays
  well-formed: no nil is in the store.
\<close>

theorem put_nil_replaces:
  assumes "pool_ok w" and "conns_set w" and "factory w = Some f"
    and "f (poolType w) (calls w) = res" and "res \<noteq> Inr None"
  shows "(\<forall>msg. res = Inl msg \<longrightarrow>
            put w None =
              (w\<lparr>logs := logs w @ [''ldap connection is nil. recreating'',
                     ''failed to create NewConn for pooldap.channelPool '' @ msg],
                 calls := calls w + 1\<rparr>, Returns ())) \<and>
         (\<forall>r. res = Inr (Some r) \<longrightarrow>
            put w None =
              (let w1 = w\<lparr>logs := logs w @ [''ldap connection is nil. recreating''],
                          calls := calls w + 1\<rparr>
               in if length (buf (store w)) < cap (store w)
                  then (w1\<lparr>store := (store w)\<lparr>buf := buf (store w) @ [Some r]\<rparr>\<rparr>, Returns ())
                  else (w1\<lparr>disposed := disposed w @ [r]\<rparr>, Returns ()))) \<and>
         pool_ok (fst (put w None)) \<and> None \<notin> set (buf (store (fst (put w None))))"
proof -
  from assms(1,2) have op: "\<not> chan_closed (store w)" and nn: "None \<notin> set (buf (store w))"
    and le: "length (buf (store w)) \<le> cap (store w)"
    by (simp_all add: pool_ok_def)
  note p = put_nil [OF assms(2) op assms(3)]
  show ?thesis
  proof (cases res)
    case (Inl msg)
    with p assms(4) have "put w None =
              (w\<lparr>logs := logs w @ [''ldap connection is nil. recreating'',
                     ''failed to create NewConn for pooldap.channelPool '' @ msg],
                 calls := calls w + 1\<rparr>, Returns ())"
      by (simp add: Let_def)
    with Inl assms(1) show ?thesis by (simp add: pool_ok_def)
  next
    case (Inr x)
    with assms(5) obtain r where x: "x = Some r" by (cases x) auto
    from p assms(4) Inr x have e: "put w None =
              (let w1 = w\<lparr>logs := logs w @ [''ldap connection is nil. recreating''],
                          calls := calls w + 1\<rparr>
               in if length (buf (store w)) < cap (store w)
                  then (w1\<lparr>store := (store w)\<lparr>buf := buf (store w) @ [Some r]\<rparr>\<rparr>, Returns ())
                  else (w1\<lparr>disposed := disposed w @ [r]\<rparr>, Returns ()))"
      by (simp add: Let_def)
    with assms(1,2) have "pool_ok (fst (put w None))"
      by (simp add: pool_ok_def Let_def)
    with e Inr x show ?thesis by (simp add: pool_ok_def)
  qed
qed

theorem put_nil_replaces_witness:
  "pool_ok (example_pool [Some 8] 2 2 False 0) \<and>
   put (example_pool [Some 8] 2 2 False 0) None =
     ((example_pool [Some 8, Some 100] 2 2 False 1)
        \<lparr>logs := [''ldap connection is nil. recreating'']\<rparr>, Returns ()) \<and>
   put (example_pool [Some 8] 2 2 False 2) None =
     ((example_pool [Some 8] 2 2 False 3)
        \<lparr>logs := [''ldap connection is nil. recreating'',
            ''failed to create NewConn for pooldap.channelPool dial tcp: connection refused'']\<rparr>,
      Returns ())"
proof -
  have ok: "pool_ok (example_pool [Some 8] 2 2 False k)" for k
    by (simp add: pool_ok_def example_pool_def)
  from put_nil_replaces [of "example_pool [Some 8] 2 2 False 0" example_factory "Inr (Some 100)"]
       put_nil_replaces [of "example_pool [Some 8] 2 2 False 2" example_factory
                            "Inl ''dial tcp: connection refused''"]
       ok
  show ?thesis by (simp add: example_pool_def example_factory_def)
qed

text \<open>
  Claim C10. Once the unusable flag of a handle is set, it stays set through every sequence
  of calls on the handle (and the handle keeps wrapping the same connection), however the
  sequence ends. A release after that, in any state of the pool, takes the branch that
  disposes and replaces: the wrapped connection is disposed, and it is not in the store
  afterwards unless it was there before or the factory itself hands it out again.
\<close>

theorem unusable_flag_monotone:
  assumes "unusable h" and "run_ops is_code opns h w = ((h1, w1), out)"
  shows "unusable h1 \<and> Conn h1 = Conn h \<and>
         PoolConn_Close (Some h1) w2 = Close_unusable h1 w2 \<and>
         (\<forall>c. Conn h1 = Some c \<longrightarrow>
            c \<in> set (disposed (fst (PoolConn_Close (Some h1) w2))) \<and>
            (Some c \<notin> set (buf (store w2)) \<and>
             (\<forall>f n. factory w2 = Some f \<longrightarrow> f (poolType w2) n \<noteq> Inr (Some c)) \<longrightarrow>
             Some c \<notin> set (buf (store (fst (PoolConn_Close (Some h1) w2))))))"
proof -
  from run_keeps [OF assms(2,1)] have k: "unusable h1" "Conn h1 = Conn h" by simp_all
  then have pc: "PoolConn_Close (Some h1) w2 = Close_unusable h1 w2"
    by (simp add: PoolConn_Close_def)
  have "c \<in> set (disposed (fst (Close_unusable h1 w2)))" if "Conn h1 = Some c" for c
    using that by (rule Close_unusable_disposes)
  moreover have "Some c \<notin> set (buf (store (fst (Close_unusable h1 w2))))"
    if "Some c \<notin> set (buf (store w2))"
      and "\<forall>f n. factory w2 = Some f \<longrightarrow> f (poolType w2) n \<noteq> Inr (Some c)" for c
    using Close_unusable_store [of h1 w2] that by auto
  ultimately show ?thesis using k pc by simp
qed

theorem unusable_flag_monotone_witness:
  "MarkUnusable (Some (example_handle (Some 7) False)) = Returns (example_handle (Some 7) True) \<and>
   unusable (example_handle (Some 7) True) \<and>
   snd (run_ops example_is_code [OpSearch, OpAutoClose (LdapError 49), OpClose, OpMarkUnusable]
          (example_handle (Some 7) True) (example_pool [] 2 2 False 0)) = Returns () \<and>
   unusable (fst (fst (run_ops example_is_code
          [OpSearch, OpAutoClose (LdapError 49), OpClose, OpMarkUnusable]
          (example_handle (Some 7) True) (example_pool [] 2 2 False 0)))) \<and>
   7 \<in> set (disposed (fst (PoolConn_Close
          (Some (fst (fst (run_ops example_is_code
             [OpSearch, OpAutoClose (LdapError 49), OpClose, OpMarkUnusable]
             (example_handle (Some 7) True) (example_pool [] 2 2 False 0)))))
          (example_pool [] 2 2 False 0)))) \<and>
   Some 7 \<notin> set (buf (store (fst (PoolConn_Close
          (Some (fst (fst (run_ops example_is_code
             [OpSearch, OpAutoClose (LdapError 49), OpClose, OpMarkUnusable]
             (example_handle (Some 7) True) (example_pool [] 2 2 False 0)))))
          (example_pool [] 2 2 False 0)))))"
proof -
  let ?r = "run_ops example_is_code [OpSearch, OpAutoClose (LdapError 49), OpClose, OpMarkUnusable]
          (example_handle (Some 7) True) (example_pool [] 2 2 False 0)"
  have u: "unusable (example_handle (Some 7) True)" by (simp add: example_handle_def)
  have r: "?r = ((fst (fst ?r), snd (fst ?r)), snd ?r)" by simp
  have out: "snd ?r = Returns ()"
    by (simp add: example_handle_def example_pool_def example_factory_def delegate_def
          AutoClose_def AutoClose_body_def PoolConn_Close_def Close_unusable_def Let_def
          logf_def client_Close_def NewConn_def call_factory_def call_fn_def wrapConn_def
          put_def put_locked_def chan_send_def MarkUnusable_def)
  have fresh: "\<forall>f n. factory (example_pool [] 2 2 False 0) = Some f \<longrightarrow>
          f (poolType (example_pool [] 2 2 False 0)) n \<noteq> Inr (Some 7)"
    by (simp add: example_pool_def example_factory_def)
  have c: "Conn (fst (fst ?r)) = Some 7"
    using unusable_flag_monotone [OF u r, of "example_pool [] 2 2 False 0"]
    by (simp add: example_handle_def)
  have nin: "Some 7 \<notin> set (buf (store (example_pool [] 2 2 False 0)))"
    by (simp add: example_pool_def)
  have mk: "MarkUnusable (Some (example_handle (Some 7) False)) =
      Returns (example_handle (Some 7) True)"
    by (simp add: MarkUnusable_def example_handle_def)
  from unusable_flag_monotone [OF u r, of "example_pool [] 2 2 False 0"] c fresh nin u out mk
  show ?thesis by blast
qed

end
